theory Spec2Isabelle
  imports Main "HOL-Library.Word"
begin

section \<open>Bifrost: array descriptors, the bfScale extension and the ring protocol\<close>

text \<open>
  The development has two parts. The first embeds code that is present in the source
  tree: the array descriptor of \<^verbatim>\<open>array.h\<close> with the memory spaces of \<^verbatim>\<open>memory.h\<close>,
  \<^verbatim>\<open>bfArrayMalloc\<close> of \<^verbatim>\<open>array.cpp\<close> and \<^verbatim>\<open>bfScale\<close> of the external extension
  example. The second part is a state machine of the ring buffer protocol. The ring
  implementation itself is not among the source files, so that state machine follows the
  specification text, call by call, and every definition of it says so.
\<close>

unbundle bit_operations_syntax

subsection \<open>Status codes and memory spaces\<close>

text \<open>
  The status codes that the embedded functions return. \<^verbatim>\<open>common.h\<close>, which declares
  the enumeration, is not among the source files; the constructors are the names the
  source files use.
\<close>

datatype BFstatus =
    BF_STATUS_SUCCESS
  | BF_STATUS_INVALID_POINTER
  | BF_STATUS_INVALID_HANDLE
  | BF_STATUS_INVALID_ARGUMENT
  | BF_STATUS_INVALID_SHAPE
  | BF_STATUS_INVALID_DTYPE
  | BF_STATUS_UNSUPPORTED
  | BF_STATUS_UNSUPPORTED_DTYPE
  | BF_STATUS_UNSUPPORTED_SPACE
  | BF_STATUS_UNSUPPORTED_STRIDE

text \<open>
  \<^verbatim>\<open>enum BFspace_\<close> of \<^verbatim>\<open>memory.h\<close>, with its five enumerators in their order.
\<close>

datatype BFspace =
    BF_SPACE_AUTO
  | BF_SPACE_SYSTEM
  | BF_SPACE_CUDA
  | BF_SPACE_CUDA_HOST
  | BF_SPACE_CUDA_MANAGED

subsection \<open>The array descriptor and bfArrayMalloc\<close>

text \<open>
  \<^verbatim>\<open>long\<close> and \<^verbatim>\<open>BFsize\<close> are 64-bit on the LP64 targets of the library; arithmetic on
  them wraps. \<^verbatim>\<open>BFdtype\<close> is the integer encoding of the data type. Addresses count
  cells of the element type.
\<close>

type_synonym long = "64 word"

type_synonym BFsize = "64 word"

type_synonym BFdtype = "32 word"

type_synonym addr = nat

definition BF_MAX_DIMS :: nat where
  "BF_MAX_DIMS = 8"

definition BF_DTYPE_FLOAT_TYPE :: BFdtype where
  "BF_DTYPE_FLOAT_TYPE = 0x0200"

definition BF_DTYPE_F32 :: BFdtype where
  "BF_DTYPE_F32 = 32 OR BF_DTYPE_FLOAT_TYPE"

text \<open>
  \<^verbatim>\<open>struct BFarray_\<close> of \<^verbatim>\<open>array.h\<close>. The two fixed-size C arrays are lists; a
  descriptor whose lists have \<^verbatim>\<open>BF_MAX_DIMS\<close> entries satisfies \<open>array_storage_ok\<close>.
\<close>

record BFarray =
  data :: addr
  space :: BFspace
  dtype :: BFdtype
  ndim :: int
  shape :: "long list"
  strides :: "long list"
  immutable :: bool
  big_endian :: bool
  conjugated :: bool

definition array_storage_ok :: "BFarray \<Rightarrow> bool" where
  "array_storage_ok a = (length (shape a) = BF_MAX_DIMS \<and> length (strides a) = BF_MAX_DIMS)"

text \<open>
  The loop \<^verbatim>\<open>for( ; d-->0; ) strides[d] = strides[d+1] * shape[d+1];\<close> of
  \<^verbatim>\<open>bfArrayMalloc\<close>. The argument is the value of \<^verbatim>\<open>d\<close> when the loop condition is
  tested: the test decrements it, and the body runs with the decremented value. An index
  outside the arrays is undefined behaviour in C, which the model reports as \<open>None\<close>.
\<close>

primrec stride_loop :: "nat \<Rightarrow> long list \<Rightarrow> long list \<Rightarrow> long list option" where
  "stride_loop 0 shp str = Some str"
| "stride_loop (Suc d) shp str =
     (if Suc d < length str \<and> Suc d < length shp
      then stride_loop d shp (str[d := str ! Suc d * shp ! Suc d])
      else None)"

text \<open>
  \<^verbatim>\<open>bfArrayMalloc\<close> of \<^verbatim>\<open>array.cpp\<close>. The macro \<^verbatim>\<open>BF_DTYPE_NBYTE\<close> and the allocator
  \<^verbatim>\<open>bfMalloc\<close> are defined in files that are not among the sources, so both are
  parameters: \<open>bfMalloc p size space\<close> is given the pointer stored in the descriptor and
  returns the status together with the pointer it leaves there. The result is \<open>None\<close>
  when the C code would index outside \<^verbatim>\<open>strides\<close> or \<^verbatim>\<open>shape\<close>.
\<close>

definition bfArrayMalloc ::
  "(BFdtype \<Rightarrow> long) \<Rightarrow> (addr \<Rightarrow> BFsize \<Rightarrow> BFspace \<Rightarrow> BFstatus \<times> addr) \<Rightarrow>
   BFarray option \<Rightarrow> (BFstatus \<times> BFarray option) option" where
  "bfArrayMalloc BF_DTYPE_NBYTE bfMalloc array =
     (case array of
        None \<Rightarrow> Some (BF_STATUS_INVALID_POINTER, None)
      | Some a \<Rightarrow>
          let d = ndim a - 1 in
          if d < 0 \<or> int (length (strides a)) \<le> d then None
          else
            (case stride_loop (nat d) (shape a) ((strides a)[nat d := BF_DTYPE_NBYTE (dtype a)]) of
               None \<Rightarrow> None
             | Some str \<Rightarrow>
                 if length str = 0 \<or> length (shape a) = 0 then None
                 else
                   let size = str ! 0 * shape a ! 0;
                       (ret, p) = bfMalloc (data a) size (space a)
                   in Some (ret, Some (a\<lparr>strides := str, data := p\<rparr>))))"

subsection \<open>bfScale\<close>

text \<open>
  \<^verbatim>\<open>bfScale\<close> writes through a pointer that may alias its input, so memory is an explicit
  store from addresses to elements. The element type and its multiplication are
  parameters: the code multiplies two \<^verbatim>\<open>float\<close> values, and nothing below depends on
  how that product is rounded.
\<close>

type_synonym 'f heap = "addr \<Rightarrow> 'f"

text \<open>
  \<^verbatim>\<open>get_total_elements\<close>: the product of the first \<^verbatim>\<open>ndim\<close> shape entries, in \<^verbatim>\<open>long\<close>
  arithmetic. The first argument counts the iterations that remain.
\<close>

primrec elements_loop :: "nat \<Rightarrow> nat \<Rightarrow> long list \<Rightarrow> long \<Rightarrow> long option" where
  "elements_loop 0 i shp tot = Some tot"
| "elements_loop (Suc k) i shp tot =
     (if i < length shp then elements_loop k (Suc i) shp (tot * shp ! i) else None)"

definition get_total_elements :: "BFarray \<Rightarrow> long option" where
  "get_total_elements arr = elements_loop (nat (ndim arr)) 0 (shape arr) 1"

text \<open>
  The shape comparison loop of \<^verbatim>\<open>bfScale\<close>: \<open>Some True\<close> when an entry differs (the
  code returns from inside the loop), \<open>Some False\<close> when the loop runs to its end.
\<close>

primrec shapes_loop :: "nat \<Rightarrow> nat \<Rightarrow> long list \<Rightarrow> long list \<Rightarrow> bool option" where
  "shapes_loop 0 i s1 s2 = Some False"
| "shapes_loop (Suc k) i s1 s2 =
     (if i < length s1 \<and> i < length s2
      then (if s1 ! i \<noteq> s2 ! i then Some True else shapes_loop k (Suc i) s1 s2)
      else None)"

text \<open>
  The loop \<^verbatim>\<open>for (long i = 0; i < n; ++i) out_data[i] = in_data[i] * scale;\<close>. Every
  iteration reads the store as the earlier iterations left it.
\<close>

primrec scale_loop ::
  "nat \<Rightarrow> nat \<Rightarrow> ('f \<Rightarrow> 'f \<Rightarrow> 'f) \<Rightarrow> 'f \<Rightarrow> addr \<Rightarrow> addr \<Rightarrow> 'f heap \<Rightarrow> 'f heap" where
  "scale_loop 0 i mul scale in_data out_data h = h"
| "scale_loop (Suc k) i mul scale in_data out_data h =
     scale_loop k (Suc i) mul scale in_data out_data
       (h(out_data + i := mul (h (in_data + i)) scale))"

text \<open>
  \<^verbatim>\<open>bfScale\<close> of the extension example, check by check in the order of the source. A null
  descriptor pointer is \<open>None\<close> of the option type; the outer \<open>None\<close> of the result is an
  out-of-range read of \<^verbatim>\<open>shape\<close>. The loop bound \<^verbatim>\<open>n\<close> is a signed \<^verbatim>\<open>long\<close>: a
  bound that is zero or negative runs no iteration.
\<close>

definition bfScale ::
  "('f \<Rightarrow> 'f \<Rightarrow> 'f) \<Rightarrow> 'f heap \<Rightarrow> BFarray option \<Rightarrow> BFarray option \<Rightarrow> 'f \<Rightarrow>
   (BFstatus \<times> 'f heap) option" where
  "bfScale mul h inp out scale =
     (case (inp, out) of
        (Some a, Some b) \<Rightarrow>
          if dtype a \<noteq> BF_DTYPE_F32 \<or> dtype b \<noteq> BF_DTYPE_F32
            then Some (BF_STATUS_UNSUPPORTED_DTYPE, h)
          else if space a \<noteq> BF_SPACE_SYSTEM \<or> space b \<noteq> BF_SPACE_SYSTEM
            then Some (BF_STATUS_UNSUPPORTED_SPACE, h)
          else if ndim a \<noteq> ndim b
            then Some (BF_STATUS_INVALID_SHAPE, h)
          else
            (case shapes_loop (nat (ndim a)) 0 (shape a) (shape b) of
               None \<Rightarrow> None
             | Some True \<Rightarrow> Some (BF_STATUS_INVALID_SHAPE, h)
             | Some False \<Rightarrow>
                 (case get_total_elements a of
                    None \<Rightarrow> None
                  | Some n \<Rightarrow>
                      Some (BF_STATUS_SUCCESS,
                            scale_loop (nat (sint n)) 0 mul scale (data a) (data b) h)))
      | _ \<Rightarrow> Some (BF_STATUS_INVALID_POINTER, h))"

text \<open>
  A descriptor within the documented limit of \<^verbatim>\<open>BF_MAX_DIMS\<close> dimensions, the number of
  elements \<^verbatim>\<open>bfScale\<close> processes for it, and the condition under which no output element
  written early is an input element read later: the output buffer starts at or before
  the input buffer, or after its end.
\<close>

definition array_ok :: "BFarray \<Rightarrow> bool" where
  "array_ok a = (array_storage_ok a \<and> ndim a \<le> int BF_MAX_DIMS)"

definition nelements :: "BFarray \<Rightarrow> nat" where
  "nelements a = nat (sint (prod_list (take (nat (ndim a)) (shape a))))"

definition no_clobber :: "BFarray \<Rightarrow> BFarray \<Rightarrow> bool" where
  "no_clobber a b = (data b \<le> data a \<or> data a + nelements a \<le> data b)"

subsection \<open>The ring buffer: data\<close>

text \<open>
  Modelled from the spec: the ring implementation (ring storage, sequence registry, span
  protocol and guarantee manager of sections 3 and 4) is not among the source files, only
  tutorials that call it. Offsets are byte offsets from the creation of the ring and are
  natural numbers.
\<close>

type_synonym byte = "8 word"

text \<open>
  Modelled from the spec: the status kinds of the error taxonomy of section 7 that the
  ring calls return. Every call returns its status together with the ring it leaves.
\<close>

datatype ring_status =
    RING_SUCCESS
  | INVALID_ARGUMENT
  | INVALID_STATE
  | WOULD_BLOCK
  | END_OF_DATA
  | OVERRUN

text \<open>
  Modelled from the spec: the Sequence entity of section 3, absent from the sources: id,
  time tag, name, header bytes, begin offset and end offset (\<open>None\<close> while open).
\<close>

record sequence_rec =
  seq_id :: nat
  time_tag :: "64 word"
  seq_name :: string
  header :: "byte list"
  seq_begin :: nat
  seq_end :: "nat option"

text \<open>
  Modelled from the spec: the Reader cursor entity of section 3, absent from the sources:
  byte offset, guarantee flag and current sequence, and whether the reader has been
  closed. A reader holds at most one span, given by its offset and size. The field
  \<open>acquired\<close> is a history kept for the proofs: every byte of every span the reader has
  released, with its offset, in the order of release.
\<close>

record reader =
  cursor :: nat
  guaranteed :: bool
  closed :: bool
  cur_seq :: "nat option"
  held :: "(nat \<times> nat) option"
  acquired :: "(nat \<times> byte) list"

text \<open>
  Modelled from the spec: the Ring entity of section 3, absent from the sources. The byte
  at offset \<open>x\<close> lives in \<open>storage\<close> at index \<open>x mod capacity\<close>, which is what the doubled
  mapping of section 4.2 shows to the caller. \<open>open_spans\<close> are the sizes of the reserved
  spans that are not yet committed, oldest first. The registry keeps every sequence, at
  the index that is its id; which of them are still live is computed from the cursors.
  Two fields are histories kept for the proofs: \<open>written\<close> is every committed byte, in
  commit order, so that its index is the byte's offset, and \<open>valid_from\<close> is the
  oldest offset whose byte was still within the storage at every resize so far.
\<close>

record ring =
  ring_name :: string
  ring_space :: BFspace
  nringlets :: nat
  capacity :: nat
  contiguous_span :: nat
  storage :: "byte list"
  writing :: bool
  reserve_cursor :: nat
  commit_cursor :: nat
  open_spans :: "nat list"
  sequences :: "sequence_rec list"
  readers :: "reader list"
  written :: "byte list"
  valid_from :: nat


text \<open>
  Modelled from the spec: the ring holds nothing that is still to be read (section 4.2):
  no span is reserved, and every open reader has released all that was committed.
\<close>

definition ring_empty :: "ring \<Rightarrow> bool" where
  "ring_empty r =
     (open_spans r = []
      \<and> list_all (\<lambda>rd. closed rd \<or> (held rd = None \<and> commit_cursor r \<le> cursor rd))
           (readers r))"

text \<open>
  Modelled from the spec: the writer's tail of section 3, the oldest offset whose byte the
  storage can still hold: one capacity behind the reservation cursor.
\<close>

definition tail :: "ring \<Rightarrow> nat" where
  "tail r = reserve_cursor r - capacity r"

text \<open>
  Modelled from the spec: the storage of capacity \<open>c\<close> that a resize lays out (section
  4.2). The cell \<open>j\<close> belongs to the newest offset \<open>x\<close> before the reservation cursor
  with \<open>x mod c = j\<close>, and receives the byte the old storage holds for \<open>x\<close>, if it still
  holds one; every other cell is zero.
\<close>

definition relocate :: "ring \<Rightarrow> nat \<Rightarrow> byte list" where
  "relocate r c =
     map (\<lambda>j. if j < reserve_cursor r
              then (let x = reserve_cursor r - 1 - (reserve_cursor r - 1 - j) mod c
                    in if tail r \<le> x then storage r ! (x mod capacity r) else 0)
              else 0)
       [0..<c]"

text \<open>
  Modelled from the spec: \<open>resize(contiguous_span, total_capacity, nringlets)\<close> of section
  4.2, absent from the sources. The capacity is rounded up to twice the contiguous span.
  The call succeeds on a ring that is empty or has never been written and fails with
  \<open>INVALID_STATE\<close> otherwise (sections 4.2 and 8). It preserves the data: the new
  storage holds every byte that the old one held and that the new capacity has room
  for. One ringlet is modelled.
\<close>

definition resize :: "ring \<Rightarrow> nat \<Rightarrow> nat \<Rightarrow> nat \<Rightarrow> ring_status \<times> ring" where
  "resize r contig total_capacity n =
     (if reserve_cursor r \<noteq> 0 \<and> \<not> ring_empty r then (INVALID_STATE, r)
      else (RING_SUCCESS,
            r\<lparr>nringlets := n, capacity := max total_capacity (2 * contig),
              contiguous_span := contig,
              storage := relocate r (max total_capacity (2 * contig)),
              valid_from := max (valid_from r) (tail r)\<rparr>))"

text \<open>
  Modelled from the spec: the contents of the span of \<open>n\<close> bytes at offset \<open>off\<close>, read
  through the wrap of the storage (section 4.2).
\<close>

definition span_bytes :: "ring \<Rightarrow> nat \<Rightarrow> nat \<Rightarrow> byte list" where
  "span_bytes r off n = map (\<lambda>i. storage r ! ((off + i) mod capacity r)) [0..<n]"

subsection \<open>The ring buffer: the writer's calls\<close>

text \<open>
  Modelled from the spec: the ring has a current sequence, the newest of the registry,
  and it is still open (section 3).
\<close>

definition seq_open :: "ring \<Rightarrow> bool" where
  "seq_open r = (sequences r \<noteq> [] \<and> seq_end (last (sequences r)) = None)"

text \<open>
  Modelled from the spec: closing the current sequence, if it is open, records the
  reservation cursor as its end offset (sections 3 and 4.3), so that the next sequence
  begins where this one ends.
\<close>

definition close_current :: "ring \<Rightarrow> ring" where
  "close_current r =
     (if seq_open r
      then r\<lparr>sequences := (sequences r)[length (sequences r) - 1 :=
                 (last (sequences r))\<lparr>seq_end := Some (reserve_cursor r)\<rparr>]\<rparr>
      else r)"

text \<open>
  Modelled from the spec: \<open>open_writing\<close> of section 4.3, absent from the sources:
  "transitions the ring to writable; fails if already writing", the failure being
  \<open>INVALID_STATE\<close> (sections 7 and 8).
\<close>

definition open_writing :: "ring \<Rightarrow> ring_status \<times> ring" where
  "open_writing r =
     (if writing r then (INVALID_STATE, r) else (RING_SUCCESS, r\<lparr>writing := True\<rparr>))"

text \<open>
  Modelled from the spec: \<open>close_writing\<close> of section 4.3: "ends any open sequence;
  releases the writer lock". The registry stays, so the ring can be opened again.
\<close>

definition close_writing :: "ring \<Rightarrow> ring_status \<times> ring" where
  "close_writing r =
     (if \<not> writing r then (INVALID_STATE, r)
      else (RING_SUCCESS, (close_current r)\<lparr>writing := False\<rparr>))"

text \<open>
  Modelled from the spec: \<open>begin_sequence\<close> of section 4.3: the new sequence gets the next
  id and begins at the reservation cursor; a sequence that is still open ends there
  (section 3: a sequence ends when the writer begins a new one).
\<close>

definition begin_sequence ::
  "ring \<Rightarrow> 64 word \<Rightarrow> string \<Rightarrow> byte list \<Rightarrow> ring_status \<times> ring" where
  "begin_sequence r tt nm hdr =
     (if \<not> writing r then (INVALID_STATE, r)
      else (RING_SUCCESS,
            (close_current r)\<lparr>sequences := sequences (close_current r) @
               [\<lparr>seq_id = length (sequences r), time_tag = tt, seq_name = nm, header = hdr,
                 seq_begin = reserve_cursor r, seq_end = None\<rparr>]\<rparr>))"

text \<open>
  Modelled from the spec: \<open>end_sequence\<close> of section 4.3.
\<close>

definition end_sequence :: "ring \<Rightarrow> ring_status \<times> ring" where
  "end_sequence r =
     (if \<not> writing r \<or> \<not> seq_open r then (INVALID_STATE, r)
      else (RING_SUCCESS, close_current r))"

text \<open>
  Modelled from the spec: the readers whose cursors the guarantee manager of section 4.4
  maintains: guaranteed and not closed.
\<close>

definition guarding :: "reader \<Rightarrow> bool" where
  "guarding rd = (guaranteed rd \<and> \<not> closed rd)"

text \<open>
  Modelled from the spec: the test of the guarantee manager of section 4.4: advancing the
  reservation cursor by \<open>n\<close> would put it more than one capacity ahead of the cursor of
  some guaranteed reader, that is, drive the effective capacity below zero.
\<close>

definition overruns :: "ring \<Rightarrow> nat \<Rightarrow> bool" where
  "overruns r n =
     list_ex (\<lambda>rd. guarding rd \<and> cursor rd + capacity r < reserve_cursor r + n) (readers r)"

text \<open>
  Modelled from the spec: \<open>reserve\<close> of section 4.3. A call that would overrun a guaranteed
  reader does not complete: it returns \<open>WOULD_BLOCK\<close> and leaves the ring as it is, which
  is what a non-blocking caller sees and the state in which a blocking caller waits. With
  no guaranteed reader nothing holds the writer back. A request above the contiguous
  span fails, and a span belongs to a sequence, so there must be an open one.
\<close>

definition reserve :: "ring \<Rightarrow> nat \<Rightarrow> ring_status \<times> ring" where
  "reserve r n =
     (if \<not> writing r \<or> \<not> seq_open r then (INVALID_STATE, r)
      else if contiguous_span r < n then (INVALID_ARGUMENT, r)
      else if overruns r n then (WOULD_BLOCK, r)
      else (RING_SUCCESS,
            r\<lparr>reserve_cursor := reserve_cursor r + n, open_spans := open_spans r @ [n]\<rparr>))"

text \<open>
  Modelled from the spec: the writer storing one byte through a span it has reserved and
  not yet committed (section 5: the payload of a reserved range belongs to the writer
  until commit).
\<close>

definition span_write :: "ring \<Rightarrow> nat \<Rightarrow> byte \<Rightarrow> ring_status \<times> ring" where
  "span_write r x v =
     (if \<not> writing r then (INVALID_STATE, r)
      else if x < commit_cursor r \<or> reserve_cursor r \<le> x then (INVALID_ARGUMENT, r)
      else (RING_SUCCESS, r\<lparr>storage := (storage r)[x mod capacity r := v]\<rparr>))"

text \<open>
  Modelled from the spec: \<open>commit\<close> of section 4.3, for the oldest reserved span: its bytes
  become readable and the commit cursor advances past them. The committed bytes are the
  ones the span shows at that moment.
\<close>

definition commit :: "ring \<Rightarrow> ring_status \<times> ring" where
  "commit r =
     (if \<not> writing r then (INVALID_STATE, r)
      else case open_spans r of
        [] \<Rightarrow> (INVALID_STATE, r)
      | n # rest \<Rightarrow>
          (RING_SUCCESS,
           r\<lparr>written := written r @ span_bytes r (commit_cursor r) n,
             commit_cursor := commit_cursor r + n, open_spans := rest\<rparr>))"

text \<open>
  Modelled from the spec: \<open>interrupt_ring\<close> of section 5 wakes the threads that wait; the
  state of the ring is as before.
\<close>

definition interrupt_ring :: "ring \<Rightarrow> ring_status \<times> ring" where
  "interrupt_ring r = (RING_SUCCESS, r)"

subsection \<open>The ring buffer: the readers' calls\<close>

text \<open>
  Modelled from the spec: some open reader has the sequence as its current one
  (the reader reference count of section 3).
\<close>

definition referenced :: "ring \<Rightarrow> nat \<Rightarrow> bool" where
  "referenced r i = list_ex (\<lambda>rd. \<not> closed rd \<and> cur_seq rd = Some i) (readers r)"

text \<open>
  Modelled from the spec: the lifecycle of a sequence in section 3: it stays in the
  registry until no reader references it and the tail has moved past its end.
\<close>

definition live :: "ring \<Rightarrow> nat \<Rightarrow> bool" where
  "live r i =
     (referenced r i
      \<or> (case seq_end (sequences r ! i) of None \<Rightarrow> True | Some e \<Rightarrow> \<not> e < tail r))"

text \<open>
  Modelled from the spec: the live sequences of the registry from index \<open>i\<close> on, oldest
  first; the open calls below look among them.
\<close>

definition live_from :: "ring \<Rightarrow> nat \<Rightarrow> nat list" where
  "live_from r i = filter (live r) [i..<length (sequences r)]"

text \<open>
  Modelled from the spec: \<open>open_reading\<close> of section 4.3, with the two starting points of
  its edge cases: the writer's current commit cursor, which is the default, or on request
  the begin of the oldest live sequence. The handle of the new reader is its index.
\<close>

definition open_reading :: "ring \<Rightarrow> bool \<Rightarrow> bool \<Rightarrow> ring_status \<times> ring" where
  "open_reading r g oldest =
     (RING_SUCCESS,
      r\<lparr>readers := readers r @
         [\<lparr>cursor = (if oldest
                     then (case live_from r 0 of
                             [] \<Rightarrow> commit_cursor r
                           | i # rest \<Rightarrow> seq_begin (sequences r ! i))
                     else commit_cursor r),
           guaranteed = g, closed = False, cur_seq = None, held = None, acquired = []\<rparr>]\<rparr>)"

text \<open>
  Modelled from the spec: \<open>reader_close\<close> of section 6: the reader gives up its span and
  takes no further part; the other readers keep their handles.
\<close>

definition close_reading :: "ring \<Rightarrow> nat \<Rightarrow> ring_status \<times> ring" where
  "close_reading r k =
     (if length (readers r) \<le> k then (INVALID_ARGUMENT, r)
      else if closed (readers r ! k) then (INVALID_STATE, r)
      else (RING_SUCCESS,
            r\<lparr>readers := (readers r)[k := (readers r ! k)\<lparr>closed := True, held := None\<rparr>]\<rparr>))"

text \<open>
  Modelled from the spec: dropping and taking the guarantee of section 4.4. Taking it
  "snaps the cursor forward to avoid stalling the writer retroactively": a cursor that
  the tail has passed moves up to the tail.
\<close>

definition set_guarantee :: "ring \<Rightarrow> nat \<Rightarrow> bool \<Rightarrow> ring_status \<times> ring" where
  "set_guarantee r k g =
     (if length (readers r) \<le> k then (INVALID_ARGUMENT, r)
      else if closed (readers r ! k) then (INVALID_STATE, r)
      else (RING_SUCCESS,
            r\<lparr>readers := (readers r)[k := (readers r ! k)
                 \<lparr>cursor := (if g then max (cursor (readers r ! k)) (tail r)
                              else cursor (readers r ! k)),
                  guaranteed := g\<rparr>]\<rparr>))"

text \<open>
  Modelled from the spec: reader \<open>k\<close> is positioned at offset \<open>x\<close> of the sequence \<open>s\<close>,
  which becomes its current one (the sequence iterator of section 3).
\<close>

definition enter :: "ring \<Rightarrow> nat \<Rightarrow> nat \<Rightarrow> nat \<Rightarrow> ring" where
  "enter r k s x =
     r\<lparr>readers := (readers r)[k := (readers r ! k)\<lparr>cursor := x, cur_seq := Some s\<rparr>]\<rparr>"

text \<open>
  Modelled from the spec: the part that the calls opening a sequence share: the reader
  must be open and hold no span; a sequence that was found is entered at its begin
  offset, and \<open>missing\<close> is the status when there is none.
\<close>

definition open_sequence ::
  "ring \<Rightarrow> nat \<Rightarrow> ring_status \<Rightarrow> nat option \<Rightarrow> ring_status \<times> ring" where
  "open_sequence r k missing found =
     (if length (readers r) \<le> k then (INVALID_ARGUMENT, r)
      else if closed (readers r ! k) \<or> held (readers r ! k) \<noteq> None then (INVALID_STATE, r)
      else case found of
        None \<Rightarrow> (missing, r)
      | Some s \<Rightarrow> (RING_SUCCESS, enter r k s (seq_begin (sequences r ! s))))"

text \<open>
  Modelled from the spec: \<open>next_sequence\<close> of section 4.3: the first live sequence after
  the reader's current one whose begin offset is at or after the reader's cursor. With no
  such sequence the call does not complete.
\<close>

definition next_sequence :: "ring \<Rightarrow> nat \<Rightarrow> ring_status \<times> ring" where
  "next_sequence r k =
     open_sequence r k WOULD_BLOCK
       (List.find (\<lambda>i. cursor (readers r ! k) \<le> seq_begin (sequences r ! i))
          (live_from r (case cur_seq (readers r ! k) of None \<Rightarrow> 0 | Some s \<Rightarrow> Suc s)))"

text \<open>
  Modelled from the spec: \<open>sequence_open_latest\<close> of section 6. The specification names
  this call and the three that follow and says no more; each is taken to select a
  sequence of the registry and to position the reader on it. This one selects the newest.
  The theorems below do not depend on the choice: they hold for a reader as long as none
  of these four calls is made on it.
\<close>

definition sequence_open_latest :: "ring \<Rightarrow> nat \<Rightarrow> ring_status \<times> ring" where
  "sequence_open_latest r k =
     open_sequence r k WOULD_BLOCK
       (if sequences r = [] then None else Some (length (sequences r) - 1))"

text \<open>
  Modelled from the spec: \<open>sequence_open_by_name\<close> of section 6: the first live sequence
  with the name.
\<close>

definition sequence_open_by_name :: "ring \<Rightarrow> nat \<Rightarrow> string \<Rightarrow> ring_status \<times> ring" where
  "sequence_open_by_name r k nm =
     open_sequence r k INVALID_ARGUMENT
       (List.find (\<lambda>i. seq_name (sequences r ! i) = nm) (live_from r 0))"

text \<open>
  Modelled from the spec: \<open>sequence_open_by_time_tag\<close> of section 6: the first live
  sequence with the time tag.
\<close>

definition sequence_open_by_time_tag :: "ring \<Rightarrow> nat \<Rightarrow> 64 word \<Rightarrow> ring_status \<times> ring" where
  "sequence_open_by_time_tag r k tt =
     open_sequence r k INVALID_ARGUMENT
       (List.find (\<lambda>i. time_tag (sequences r ! i) = tt) (live_from r 0))"

text \<open>
  Modelled from the spec: the offset \<open>x\<close> lies in sequence \<open>i\<close>: from its begin up to,
  and not including, its end, or up to the reservation cursor while it is open.
\<close>

definition contains_offset :: "ring \<Rightarrow> nat \<Rightarrow> nat \<Rightarrow> bool" where
  "contains_offset r x i =
     (seq_begin (sequences r ! i) \<le> x
      \<and> (case seq_end (sequences r ! i) of None \<Rightarrow> x \<le> reserve_cursor r | Some e \<Rightarrow> x < e))"

text \<open>
  Modelled from the spec: \<open>sequence_open_at_offset\<close> of section 6: the live sequence that
  contains the offset; the reader is positioned at the offset.
\<close>

definition sequence_open_at_offset :: "ring \<Rightarrow> nat \<Rightarrow> nat \<Rightarrow> ring_status \<times> ring" where
  "sequence_open_at_offset r k x =
     (if length (readers r) \<le> k then (INVALID_ARGUMENT, r)
      else if closed (readers r ! k) \<or> held (readers r ! k) \<noteq> None then (INVALID_STATE, r)
      else case List.find (contains_offset r x) (live_from r 0) of
        None \<Rightarrow> (INVALID_ARGUMENT, r)
      | Some s \<Rightarrow> (RING_SUCCESS, enter r k s x))"

text \<open>
  Modelled from the spec: reader \<open>k\<close> takes the span of \<open>n\<close> bytes at its cursor
  (section 4.3); its cursor stays where it is until the span is released.
\<close>

definition hold :: "ring \<Rightarrow> nat \<Rightarrow> nat \<Rightarrow> ring" where
  "hold r k n =
     r\<lparr>readers := (readers r)[k := (readers r ! k)\<lparr>held := Some (cursor (readers r ! k), n)\<rparr>]\<rparr>"

text \<open>
  Modelled from the spec: the test of section 4.3 for an opportunistic reader that the
  writer has passed by more than one capacity.
\<close>

definition lapped :: "ring \<Rightarrow> reader \<Rightarrow> bool" where
  "lapped r rd = (\<not> guaranteed rd \<and> cursor rd + capacity r < commit_cursor r)"

text \<open>
  Modelled from the spec: \<open>acquire\<close> of section 4.3. It completes once the bytes are
  committed; on a sequence that has ended it returns the shorter span that is left and
  never crosses the end offset; at the end offset it reports the end of the sequence. An
  opportunistic reader that was lapped gets \<open>OVERRUN\<close> and its cursor is moved to
  \<open>commit_cursor - capacity + 1\<close> (section 4.4).
\<close>

definition acquire :: "ring \<Rightarrow> nat \<Rightarrow> nat \<Rightarrow> ring_status \<times> ring" where
  "acquire r k n =
     (if length (readers r) \<le> k then (INVALID_ARGUMENT, r)
      else if closed (readers r ! k) \<or> held (readers r ! k) \<noteq> None then (INVALID_STATE, r)
      else case cur_seq (readers r ! k) of
        None \<Rightarrow> (INVALID_STATE, r)
      | Some s \<Rightarrow>
          if lapped r (readers r ! k)
            then (OVERRUN,
                  r\<lparr>readers := (readers r)[k := (readers r ! k)
                       \<lparr>cursor := commit_cursor r - capacity r + 1\<rparr>]\<rparr>)
          else
            (case seq_end (sequences r ! s) of
               None \<Rightarrow>
                 if cursor (readers r ! k) + n \<le> commit_cursor r
                 then (RING_SUCCESS, hold r k n)
                 else (WOULD_BLOCK, r)
             | Some e \<Rightarrow>
                 if e \<le> cursor (readers r ! k) then (END_OF_DATA, r)
                 else if cursor (readers r ! k) + n \<le> min e (commit_cursor r)
                   then (RING_SUCCESS, hold r k n)
                 else if cursor (readers r ! k) < min e (commit_cursor r)
                   then (RING_SUCCESS,
                         hold r k (min e (commit_cursor r) - cursor (readers r ! k)))
                 else (WOULD_BLOCK, r)))"

text \<open>
  Modelled from the spec: \<open>release\<close> of section 4.3: the reader's cursor advances to the
  end of the span. The bytes the span shows at that moment are appended to the reader's
  history.
\<close>

definition release :: "ring \<Rightarrow> nat \<Rightarrow> ring_status \<times> ring" where
  "release r k =
     (if length (readers r) \<le> k then (INVALID_ARGUMENT, r)
      else if closed (readers r ! k) then (INVALID_STATE, r)
      else case held (readers r ! k) of
        None \<Rightarrow> (INVALID_STATE, r)
      | Some (off, sz) \<Rightarrow>
          (RING_SUCCESS,
           r\<lparr>readers := (readers r)[k := (readers r ! k)
                \<lparr>cursor := max (cursor (readers r ! k)) (off + sz), held := None,
                 acquired := acquired (readers r ! k)
                             @ zip [off..<off + sz] (span_bytes r off sz)\<rparr>]\<rparr>))"

subsection \<open>The ring buffer: runs\<close>

text \<open>
  Modelled from the spec: the calls of sections 4.2 to 4.4, 5 and 6 as a datatype, the
  writer's first, then the readers'.
\<close>

datatype ring_op =
    Resize nat nat nat
  | Open_writing
  | Close_writing
  | Begin_sequence "64 word" string "byte list"
  | End_sequence
  | Reserve nat
  | Span_write nat byte
  | Commit
  | Interrupt
  | Open_reading bool bool
  | Close_reading nat
  | Set_guarantee nat bool
  | Next_sequence nat
  | Open_latest nat
  | Open_by_name nat string
  | Open_by_time_tag nat "64 word"
  | Open_at_offset nat nat
  | Acquire nat nat
  | Release nat

text \<open>
  Modelled from the spec: one call on the ring. The ring is protected by one mutex
  (section 5), so calls of different threads take effect one after the other.
\<close>

fun apply_op :: "ring \<Rightarrow> ring_op \<Rightarrow> ring_status \<times> ring" where
  "apply_op r (Resize contig total_capacity n) = resize r contig total_capacity n"
| "apply_op r Open_writing = open_writing r"
| "apply_op r Close_writing = close_writing r"
| "apply_op r (Begin_sequence tt nm hdr) = begin_sequence r tt nm hdr"
| "apply_op r End_sequence = end_sequence r"
| "apply_op r (Reserve n) = reserve r n"
| "apply_op r (Span_write x v) = span_write r x v"
| "apply_op r Commit = commit r"
| "apply_op r Interrupt = interrupt_ring r"
| "apply_op r (Open_reading g oldest) = open_reading r g oldest"
| "apply_op r (Close_reading k) = close_reading r k"
| "apply_op r (Set_guarantee k g) = set_guarantee r k g"
| "apply_op r (Next_sequence k) = next_sequence r k"
| "apply_op r (Open_latest k) = sequence_open_latest r k"
| "apply_op r (Open_by_name k nm) = sequence_open_by_name r k nm"
| "apply_op r (Open_by_time_tag k tt) = sequence_open_by_time_tag r k tt"
| "apply_op r (Open_at_offset k x) = sequence_open_at_offset r k x"
| "apply_op r (Acquire k n) = acquire r k n"
| "apply_op r (Release k) = release r k"

text \<open>
  Modelled from the spec: the ring after a list of calls, made by the writer and the
  readers in any interleaving. A call that fails or does not complete leaves the ring
  unchanged and the run goes on.
\<close>

fun run :: "ring \<Rightarrow> ring_op list \<Rightarrow> ring" where
  "run r [] = r"
| "run r (x # xs) = run (snd (apply_op r x)) xs"


text \<open>
  The reader on which a call acts, for the calls that act on one reader.
\<close>

fun actor :: "ring_op \<Rightarrow> nat option" where
  "actor (Close_reading k) = Some k"
| "actor (Set_guarantee k g) = Some k"
| "actor (Next_sequence k) = Some k"
| "actor (Open_latest k) = Some k"
| "actor (Open_by_name k nm) = Some k"
| "actor (Open_by_time_tag k tt) = Some k"
| "actor (Open_at_offset k x) = Some k"
| "actor (Acquire k n) = Some k"
| "actor (Release k) = Some k"
| "actor x = None"

text \<open>
  The calls that position reader \<open>k\<close> on a sequence that the caller picks: the four
  \<open>sequence_open\<close> calls of section 6.
\<close>

fun repositions :: "nat \<Rightarrow> ring_op \<Rightarrow> bool" where
  "repositions k (Open_latest j) = (j = k)"
| "repositions k (Open_by_name j nm) = (j = k)"
| "repositions k (Open_by_time_tag j tt) = (j = k)"
| "repositions k (Open_at_offset j x) = (j = k)"
| "repositions k x = False"

text \<open>
  The calls by which reader \<open>k\<close> leaves the place where it reads or changes its
  guarantee: the four above, \<open>next_sequence\<close>, dropping or taking the guarantee, and
  closing.
\<close>

fun leaves :: "nat \<Rightarrow> ring_op \<Rightarrow> bool" where
  "leaves k (Next_sequence j) = (j = k)"
| "leaves k (Set_guarantee j g) = (j = k)"
| "leaves k (Close_reading j) = (j = k)"
| "leaves k x = repositions k x"





text \<open>
  The offset up to which a sequence extends: its end offset, or the reservation cursor
  while it is open.
\<close>

definition seq_limit :: "ring \<Rightarrow> nat \<Rightarrow> nat" where
  "seq_limit r i =
     (case seq_end (sequences r ! i) of None \<Rightarrow> reserve_cursor r | Some e \<Rightarrow> e)"





subsection \<open>Invariants of the ring\<close>





text \<open>
  Relations between a state and a later one: only the readers differ; or the registry
  and the committed bytes have grown and nothing of them has changed.
\<close>

definition same_ring :: "ring \<Rightarrow> ring \<Rightarrow> bool" where
  "same_ring r r' = (r' = r\<lparr>readers := readers r'\<rparr>)"

definition extends :: "ring \<Rightarrow> ring \<Rightarrow> bool" where
  "extends r r' =
     (length (sequences r) \<le> length (sequences r')
      \<and> (\<forall>s. s < length (sequences r) \<longrightarrow>
             seq_begin (sequences r' ! s) = seq_begin (sequences r ! s)
             \<and> seq_limit r s \<le> seq_limit r' s
             \<and> (seq_end (sequences r' ! s) = None \<longrightarrow> seq_end (sequences r ! s) = None))
      \<and> commit_cursor r \<le> commit_cursor r'
      \<and> (\<forall>x. x < commit_cursor r \<longrightarrow> written r' ! x = written r ! x))"




subsection \<open>Concrete inputs\<close>

text \<open>
  A one-dimensional float32 array of \<open>n\<close> elements in system memory at address \<open>p\<close>, a
  store that holds the same value everywhere, and a 3 by 4 descriptor before allocation.
\<close>

definition f32_array :: "addr \<Rightarrow> long \<Rightarrow> BFarray" where
  "f32_array p n =
     \<lparr>data = p, space = BF_SPACE_SYSTEM, dtype = BF_DTYPE_F32, ndim = 1,
      shape = [n, 0, 0, 0, 0, 0, 0, 0], strides = [4, 0, 0, 0, 0, 0, 0, 0],
      immutable = False, big_endian = False, conjugated = False\<rparr>"

definition const_heap :: "int \<Rightarrow> int heap" where
  "const_heap v = (\<lambda>p. v)"

definition sample_array :: BFarray where
  "sample_array =
     \<lparr>data = 0, space = BF_SPACE_SYSTEM, dtype = BF_DTYPE_F32, ndim = 2,
      shape = [3, 4, 0, 0, 0, 0, 0, 0], strides = [0, 0, 0, 0, 0, 0, 0, 0],
      immutable = False, big_endian = False, conjugated = False\<rparr>"















section \<open>Proofs\<close>

subsection \<open>bfArrayMalloc\<close>

lemma stride_loop_length:
  "stride_loop d shp str = Some str' \<Longrightarrow> length str' = length str"
  by (induction d arbitrary: str) (auto split: if_splits)

lemma stride_loop_above:
  "stride_loop d shp str = Some str' \<Longrightarrow> d \<le> k \<Longrightarrow> str' ! k = str ! k"
  by (induction d arbitrary: str) (auto split: if_splits)

lemma stride_loop_below:
  "stride_loop d shp str = Some str' \<Longrightarrow> k < d \<Longrightarrow> str' ! k = str' ! Suc k * shp ! Suc k"
proof (induction d arbitrary: str)
  case 0
  then show ?case by simp
next
  case (Suc d)
  from Suc.prems(1) have ok: "Suc d < length str" "Suc d < length shp"
    and rec: "stride_loop d shp (str[d := str ! Suc d * shp ! Suc d]) = Some str'"
    by (auto split: if_splits)
  show ?case
  proof (cases "k < d")
    case True
    with Suc.IH [OF rec] show ?thesis by simp
  next
    case False
    with Suc.prems(2) have kd: "k = d" by simp
    have "str' ! d = (str[d := str ! Suc d * shp ! Suc d]) ! d"
      using stride_loop_above [OF rec, of d] by simp
    moreover have "str' ! Suc d = (str[d := str ! Suc d * shp ! Suc d]) ! Suc d"
      using stride_loop_above [OF rec, of "Suc d"] by simp
    ultimately show ?thesis using ok kd by simp
  qed
qed

lemma stride_loop_total:
  "d < length str \<Longrightarrow> d < length shp \<Longrightarrow> \<exists>str'. stride_loop d shp str = Some str'"
  by (induction d arbitrary: str) auto

text \<open>
  Claim C10. For a descriptor with between one and \<^verbatim>\<open>BF_MAX_DIMS\<close> dimensions,
  \<^verbatim>\<open>bfArrayMalloc\<close> fills in row-major strides: the last stride is
  \<^verbatim>\<open>BF_DTYPE_NBYTE(dtype)\<close>, every earlier stride is the next stride times the next shape
  entry, and the allocator is called once, for \<open>strides[0] * shape[0]\<close> bytes in the space
  of the array. The status and the data pointer are the allocator's; the other fields
  are unchanged. The products are those of the machine, in 64-bit arithmetic.
\<close>

theorem bfArrayMalloc_row_major:
  assumes nd: "1 \<le> ndim a" "ndim a \<le> int BF_MAX_DIMS"
    and st: "array_storage_ok a"
  shows "\<exists>str. length str = BF_MAX_DIMS
      \<and> str ! nat (ndim a - 1) = BF_DTYPE_NBYTE (dtype a)
      \<and> (\<forall>d. int d < ndim a - 1 \<longrightarrow> str ! d = str ! (d + 1) * shape a ! (d + 1))
      \<and> bfArrayMalloc BF_DTYPE_NBYTE bfMalloc (Some a) =
          Some (fst (bfMalloc (data a) (str ! 0 * shape a ! 0) (space a)),
                Some (a\<lparr>strides := str,
                         data := snd (bfMalloc (data a) (str ! 0 * shape a ! 0) (space a))\<rparr>))"
proof -
  define d where "d = nat (ndim a - 1)"
  have len: "length (shape a) = 8" "length (strides a) = 8"
    using st by (simp_all add: array_storage_ok_def BF_MAX_DIMS_def)
  have d8: "d < 8" using nd by (simp add: d_def BF_MAX_DIMS_def)
  define str0 where "str0 = (strides a)[d := BF_DTYPE_NBYTE (dtype a)]"
  have "\<exists>str. stride_loop d (shape a) str0 = Some str"
    by (rule stride_loop_total) (use d8 len in \<open>simp_all add: str0_def\<close>)
  then obtain str where run: "stride_loop d (shape a) str0 = Some str" ..
  have l: "length str = 8"
    using stride_loop_length [OF run] len by (simp add: str0_def)
  have last: "str ! d = BF_DTYPE_NBYTE (dtype a)"
    using stride_loop_above [OF run, of d] d8 len by (simp add: str0_def)
  have below: "\<forall>k. int k < ndim a - 1 \<longrightarrow> str ! k = str ! (k + 1) * shape a ! (k + 1)"
  proof (intro allI impI)
    fix k assume "int k < ndim a - 1"
    then have "k < d" by (simp add: d_def)
    from stride_loop_below [OF run this] show "str ! k = str ! (k + 1) * shape a ! (k + 1)"
      by simp
  qed
  have "bfArrayMalloc BF_DTYPE_NBYTE bfMalloc (Some a) =
          Some (fst (bfMalloc (data a) (str ! 0 * shape a ! 0) (space a)),
                Some (a\<lparr>strides := str,
                         data := snd (bfMalloc (data a) (str ! 0 * shape a ! 0) (space a))\<rparr>))"
    using nd run l len d8
    by (simp add: bfArrayMalloc_def Let_def d_def [symmetric] str0_def [symmetric]
        BF_MAX_DIMS_def split_beta)
  with l last below show ?thesis
    by (intro exI [of _ str]) (simp add: BF_MAX_DIMS_def d_def)
qed

text \<open>
  A 3 by 4 array of 4-byte elements gets the strides 16 and 4.
\<close>

theorem bfArrayMalloc_row_major_witness:
  "1 \<le> ndim sample_array \<and> ndim sample_array \<le> int BF_MAX_DIMS
   \<and> array_storage_ok sample_array
   \<and> (\<exists>str. str ! 1 = 4 \<and> str ! 0 = 16
        \<and> bfArrayMalloc (\<lambda>t. 4) (\<lambda>p n sp. (BF_STATUS_SUCCESS, 4096)) (Some sample_array)
            = Some (BF_STATUS_SUCCESS, Some (sample_array\<lparr>strides := str, data := 4096\<rparr>)))"
proof -
  have a: "1 \<le> ndim sample_array" "ndim sample_array \<le> int BF_MAX_DIMS"
    and b: "array_storage_ok sample_array"
    by (simp_all add: sample_array_def BF_MAX_DIMS_def array_storage_ok_def)
  from bfArrayMalloc_row_major [OF a b, of "\<lambda>t. 4" "\<lambda>p n sp. (BF_STATUS_SUCCESS, 4096)"]
  obtain str where last: "str ! nat (ndim sample_array - 1) = 4"
    and rec: "\<forall>d. int d < ndim sample_array - 1 \<longrightarrow>
        str ! d = str ! (d + 1) * shape sample_array ! (d + 1)"
    and run: "bfArrayMalloc (\<lambda>t. 4) (\<lambda>p n sp. (BF_STATUS_SUCCESS, 4096)) (Some sample_array)
        = Some (BF_STATUS_SUCCESS, Some (sample_array\<lparr>strides := str, data := 4096\<rparr>))"
    by (elim exE conjE) simp
  from last have s1: "str ! 1 = 4" by (simp add: sample_array_def)
  from rec [rule_format, of 0] s1 have s0: "str ! 0 = 16" by (simp add: sample_array_def)
  from s1 s0 run have "\<exists>str. str ! 1 = 4 \<and> str ! 0 = 16
        \<and> bfArrayMalloc (\<lambda>t. 4) (\<lambda>p n sp. (BF_STATUS_SUCCESS, 4096)) (Some sample_array)
            = Some (BF_STATUS_SUCCESS, Some (sample_array\<lparr>strides := str, data := 4096\<rparr>))"
    by (intro exI [of _ str] conjI)
  with a b show ?thesis by (intro conjI)
qed

subsection \<open>bfScale\<close>

lemma elements_loop_prod:
  "i + k \<le> length shp \<Longrightarrow>
   elements_loop k i shp tot = Some (tot * prod_list (take k (drop i shp)))"
proof (induction k arbitrary: i tot)
  case 0
  then show ?case by simp
next
  case (Suc k)
  then have i: "i < length shp" by simp
  have "drop i shp = shp ! i # drop (Suc i) shp"
    using i by (simp add: Cons_nth_drop_Suc)
  with Suc show ?case by (simp add: mult.assoc)
qed

lemma get_total_elements_ok:
  "array_ok a \<Longrightarrow> get_total_elements a = Some (prod_list (take (nat (ndim a)) (shape a)))"
  unfolding get_total_elements_def array_ok_def array_storage_ok_def
  by (subst elements_loop_prod) auto

lemma shapes_loop_ok:
  "i + k \<le> length s1 \<Longrightarrow> i + k \<le> length s2 \<Longrightarrow>
   shapes_loop k i s1 s2 = Some (\<exists>j. i \<le> j \<and> j < i + k \<and> s1 ! j \<noteq> s2 ! j)"
proof (induction k arbitrary: i)
  case 0
  then show ?case by simp
next
  case (Suc k)
  show ?case
  proof (cases "s1 ! i \<noteq> s2 ! i")
    case True
    then have "\<exists>j. i \<le> j \<and> j < i + Suc k \<and> s1 ! j \<noteq> s2 ! j"
      by (intro exI [of _ i]) simp
    with True Suc.prems show ?thesis by simp
  next
    case False
    have "(\<exists>j. Suc i \<le> j \<and> j < Suc i + k \<and> s1 ! j \<noteq> s2 ! j)
        = (\<exists>j. i \<le> j \<and> j < i + Suc k \<and> s1 ! j \<noteq> s2 ! j)"
      using False by (metis Suc_leD Suc_leI add_Suc add_Suc_right le_neq_implies_less)
    with False Suc.prems Suc.IH [of "Suc i"] show ?thesis by simp
  qed
qed

lemma scale_loop_frame:
  "(\<forall>j. i \<le> j \<and> j < i + k \<longrightarrow> p \<noteq> out_data + j) \<Longrightarrow>
   scale_loop k i mul scale in_data out_data h p = h p"
proof (induction k arbitrary: i h)
  case 0
  then show ?case by simp
next
  case (Suc k)
  have "scale_loop k (Suc i) mul scale in_data out_data
          (h(out_data + i := mul (h (in_data + i)) scale)) p
        = (h(out_data + i := mul (h (in_data + i)) scale)) p"
    by (rule Suc.IH) (use Suc.prems in auto)
  moreover have "p \<noteq> out_data + i" using Suc.prems by auto
  ultimately show ?case by simp
qed

lemma scale_loop_written:
  assumes "\<forall>j j'. i \<le> j' \<and> j' < j \<and> j < i + k \<longrightarrow> out_data + j' \<noteq> in_data + j"
    and "i \<le> j" "j < i + k"
  shows "scale_loop k i mul scale in_data out_data h (out_data + j) = mul (h (in_data + j)) scale"
  using assms
proof (induction k arbitrary: i h)
  case 0
  then show ?case by simp
next
  case (Suc k)
  let ?h1 = "h(out_data + i := mul (h (in_data + i)) scale)"
  show ?case
  proof (cases "j = i")
    case True
    have "scale_loop k (Suc i) mul scale in_data out_data ?h1 (out_data + i) = ?h1 (out_data + i)"
      by (rule scale_loop_frame) auto
    with True show ?thesis by simp
  next
    case False
    with Suc.prems have j: "Suc i \<le> j" "j < Suc i + k" by simp_all
    have sep: "\<forall>j j'. Suc i \<le> j' \<and> j' < j \<and> j < Suc i + k \<longrightarrow> out_data + j' \<noteq> in_data + j"
      using Suc.prems(1) by auto
    have "scale_loop k (Suc i) mul scale in_data out_data ?h1 (out_data + j)
        = mul (?h1 (in_data + j)) scale"
      by (rule Suc.IH [OF sep j])
    moreover have "out_data + i \<noteq> in_data + j"
      using Suc.prems(1) j by auto
    ultimately show ?thesis by simp
  qed
qed

lemma shapes_loop_array:
  "array_ok a \<Longrightarrow> array_ok b \<Longrightarrow>
   shapes_loop (nat (ndim a)) 0 (shape a) (shape b)
     = Some (\<exists>j. j < nat (ndim a) \<and> shape a ! j \<noteq> shape b ! j)"
  unfolding array_ok_def array_storage_ok_def
  by (subst shapes_loop_ok) auto

lemma bfScale_eval:
  assumes ok: "array_ok a" "array_ok b"
  shows "bfScale mul h (Some a) (Some b) scale =
      Some (if dtype a \<noteq> BF_DTYPE_F32 \<or> dtype b \<noteq> BF_DTYPE_F32
              then (BF_STATUS_UNSUPPORTED_DTYPE, h)
            else if space a \<noteq> BF_SPACE_SYSTEM \<or> space b \<noteq> BF_SPACE_SYSTEM
              then (BF_STATUS_UNSUPPORTED_SPACE, h)
            else if ndim a \<noteq> ndim b \<or> (\<exists>j. j < nat (ndim a) \<and> shape a ! j \<noteq> shape b ! j)
              then (BF_STATUS_INVALID_SHAPE, h)
            else (BF_STATUS_SUCCESS,
                  scale_loop (nelements a) 0 mul scale (data a) (data b) h))"
proof (cases "ndim a = ndim b")
  case False
  then show ?thesis by (simp add: bfScale_def)
next
  case True
  note nd = this
  have sl: "shapes_loop (nat (ndim a)) 0 (shape a) (shape b)
      = Some (\<exists>j. j < nat (ndim a) \<and> shape a ! j \<noteq> shape b ! j)"
    by (rule shapes_loop_array [OF ok])
  have te: "get_total_elements a = Some (prod_list (take (nat (ndim a)) (shape a)))"
    by (rule get_total_elements_ok [OF ok(1)])
  show ?thesis
  proof (cases "\<exists>j. j < nat (ndim a) \<and> shape a ! j \<noteq> shape b ! j")
    case True
    with sl nd show ?thesis by (simp add: bfScale_def)
  next
    case False
    then have nex: "(\<exists>j. j < nat (ndim a) \<and> shape a ! j \<noteq> shape b ! j) = False"
      by simp
    from sl [unfolded nex] te nd False show ?thesis
      by (auto simp: bfScale_def nelements_def)
  qed
qed

lemma scale_loop_no_clobber:
  assumes nc: "no_clobber a b" and i: "i < nelements a"
  shows "scale_loop (nelements a) 0 mul scale (data a) (data b) h (data b + i)
           = mul (h (data a + i)) scale"
proof -
  have "\<forall>j j'. 0 \<le> j' \<and> j' < j \<and> j < 0 + nelements a \<longrightarrow> data b + j' \<noteq> data a + j"
    using nc unfolding no_clobber_def by auto
  from scale_loop_written [OF this, of i] i show ?thesis by simp
qed

text \<open>
  Claim C9, as amended. For two non-null descriptors within \<^verbatim>\<open>BF_MAX_DIMS\<close>:
  \<^verbatim>\<open>bfScale\<close> returns \<open>UNSUPPORTED_DTYPE\<close> if either dtype is not float32, else
  \<open>UNSUPPORTED_SPACE\<close> if either space is not system memory, else \<open>INVALID_SHAPE\<close> if
  \<^verbatim>\<open>ndim\<close> or one of the first \<^verbatim>\<open>ndim\<close> shape entries differs, and in these three cases
  memory is unchanged. Otherwise it returns \<open>SUCCESS\<close>, memory outside the output buffer
  is unchanged, and, provided the output buffer starts at or before the input buffer or
  after its end, every output element is the input element of the same index, as it was
  before the call, times the scale.
\<close>

theorem bfScale_spec:
  assumes ok: "array_ok a" "array_ok b"
  shows "(dtype a \<noteq> BF_DTYPE_F32 \<or> dtype b \<noteq> BF_DTYPE_F32 \<longrightarrow>
            bfScale mul h (Some a) (Some b) scale = Some (BF_STATUS_UNSUPPORTED_DTYPE, h))
       \<and> (dtype a = BF_DTYPE_F32 \<and> dtype b = BF_DTYPE_F32
            \<and> (space a \<noteq> BF_SPACE_SYSTEM \<or> space b \<noteq> BF_SPACE_SYSTEM) \<longrightarrow>
            bfScale mul h (Some a) (Some b) scale = Some (BF_STATUS_UNSUPPORTED_SPACE, h))
       \<and> (dtype a = BF_DTYPE_F32 \<and> dtype b = BF_DTYPE_F32
            \<and> space a = BF_SPACE_SYSTEM \<and> space b = BF_SPACE_SYSTEM
            \<and> (ndim a \<noteq> ndim b \<or> (\<exists>j. j < nat (ndim a) \<and> shape a ! j \<noteq> shape b ! j)) \<longrightarrow>
            bfScale mul h (Some a) (Some b) scale = Some (BF_STATUS_INVALID_SHAPE, h))
       \<and> (dtype a = BF_DTYPE_F32 \<and> dtype b = BF_DTYPE_F32
            \<and> space a = BF_SPACE_SYSTEM \<and> space b = BF_SPACE_SYSTEM
            \<and> ndim a = ndim b \<and> (\<forall>j. j < nat (ndim a) \<longrightarrow> shape a ! j = shape b ! j) \<longrightarrow>
            (\<exists>h'. bfScale mul h (Some a) (Some b) scale = Some (BF_STATUS_SUCCESS, h')
               \<and> (no_clobber a b \<longrightarrow>
                    (\<forall>i. i < nelements a \<longrightarrow> h' (data b + i) = mul (h (data a + i)) scale))
               \<and> (\<forall>p. (\<forall>j. j < nelements a \<longrightarrow> p \<noteq> data b + j) \<longrightarrow> h' p = h p)))"
proof (intro conjI impI)
  assume "dtype a \<noteq> BF_DTYPE_F32 \<or> dtype b \<noteq> BF_DTYPE_F32"
  then show "bfScale mul h (Some a) (Some b) scale = Some (BF_STATUS_UNSUPPORTED_DTYPE, h)"
    unfolding bfScale_eval [OF ok] by simp
next
  assume "dtype a = BF_DTYPE_F32 \<and> dtype b = BF_DTYPE_F32
            \<and> (space a \<noteq> BF_SPACE_SYSTEM \<or> space b \<noteq> BF_SPACE_SYSTEM)"
  then show "bfScale mul h (Some a) (Some b) scale = Some (BF_STATUS_UNSUPPORTED_SPACE, h)"
    unfolding bfScale_eval [OF ok] by simp
next
  assume "dtype a = BF_DTYPE_F32 \<and> dtype b = BF_DTYPE_F32
            \<and> space a = BF_SPACE_SYSTEM \<and> space b = BF_SPACE_SYSTEM
            \<and> (ndim a \<noteq> ndim b \<or> (\<exists>j. j < nat (ndim a) \<and> shape a ! j \<noteq> shape b ! j))"
  then show "bfScale mul h (Some a) (Some b) scale = Some (BF_STATUS_INVALID_SHAPE, h)"
    unfolding bfScale_eval [OF ok] by simp
next
  assume good: "dtype a = BF_DTYPE_F32 \<and> dtype b = BF_DTYPE_F32
            \<and> space a = BF_SPACE_SYSTEM \<and> space b = BF_SPACE_SYSTEM
            \<and> ndim a = ndim b \<and> (\<forall>j. j < nat (ndim a) \<longrightarrow> shape a ! j = shape b ! j)"
  let ?h' = "scale_loop (nelements a) 0 mul scale (data a) (data b) h"
  have "\<not> (\<exists>j. j < nat (ndim a) \<and> shape a ! j \<noteq> shape b ! j)"
    using good by blast
  with good have "bfScale mul h (Some a) (Some b) scale = Some (BF_STATUS_SUCCESS, ?h')"
    unfolding bfScale_eval [OF ok] by simp
  moreover have "no_clobber a b \<longrightarrow>
      (\<forall>i. i < nelements a \<longrightarrow> ?h' (data b + i) = mul (h (data a + i)) scale)"
    by (intro allI impI scale_loop_no_clobber)
  moreover have "\<forall>p. (\<forall>j. j < nelements a \<longrightarrow> p \<noteq> data b + j) \<longrightarrow> ?h' p = h p"
    by (intro allI impI scale_loop_frame) simp
  ultimately have body: "bfScale mul h (Some a) (Some b) scale = Some (BF_STATUS_SUCCESS, ?h')
               \<and> (no_clobber a b \<longrightarrow>
                    (\<forall>i. i < nelements a \<longrightarrow> ?h' (data b + i) = mul (h (data a + i)) scale))
               \<and> (\<forall>p. (\<forall>j. j < nelements a \<longrightarrow> p \<noteq> data b + j) \<longrightarrow> ?h' p = h p)"
    by (intro conjI)
  show "\<exists>h'. bfScale mul h (Some a) (Some b) scale = Some (BF_STATUS_SUCCESS, h')
               \<and> (no_clobber a b \<longrightarrow>
                    (\<forall>i. i < nelements a \<longrightarrow> h' (data b + i) = mul (h (data a + i)) scale))
               \<and> (\<forall>p. (\<forall>j. j < nelements a \<longrightarrow> p \<noteq> data b + j) \<longrightarrow> h' p = h p)"
    by (rule exI [of _ ?h']) (rule body)
qed

lemma f32_array_ok: "array_ok (f32_array p n)"
  by (simp add: array_ok_def array_storage_ok_def f32_array_def BF_MAX_DIMS_def)

lemma nelements_f32_array_2: "nelements (f32_array p 2) = 2"
  by (simp add: nelements_def f32_array_def)

lemma data_f32_array: "data (f32_array p n) = p"
  by (simp add: f32_array_def)

lemma f32_array_same_shape:
  "dtype (f32_array p n) = BF_DTYPE_F32 \<and> dtype (f32_array q n) = BF_DTYPE_F32
   \<and> space (f32_array p n) = BF_SPACE_SYSTEM \<and> space (f32_array q n) = BF_SPACE_SYSTEM
   \<and> ndim (f32_array p n) = ndim (f32_array q n)
   \<and> (\<forall>j. j < nat (ndim (f32_array p n)) \<longrightarrow> shape (f32_array p n) ! j = shape (f32_array q n) ! j)"
  by (simp add: f32_array_def)

lemma bfScale_f32_run:
  "bfScale (*) h (Some (f32_array p 2)) (Some (f32_array q 2)) (scale::int)
     = Some (BF_STATUS_SUCCESS, scale_loop 2 0 (*) scale p q h)"
  using f32_array_same_shape [of p 2 q]
  unfolding bfScale_eval [OF f32_array_ok f32_array_ok] nelements_f32_array_2 data_f32_array
  by simp

text \<open>
  The claim as stated, for every pair of arrays, fails on buffers that overlap by one
  element, whichever value \<open>in[i]\<close> stands for. With the output one element after the
  input, memory \<open>[1, 1, 1]\<close> and the scale 2, the second output element is 4, while the
  input element was 1 before the call: the loop reads the element it has just written.
  With the output one element before the input, the first output element is 2 and the
  first input element is 2 as well after the call, so the output is not twice the input
  as it stands then. The values are small integers, on which float32 multiplication is
  exact.
\<close>

theorem bfScale_overlap_counterexample:
  "bfScale (*) (const_heap 1) (Some (f32_array 0 2)) (Some (f32_array 1 2)) 2
     = Some (BF_STATUS_SUCCESS, (const_heap 1)(1 := 2, 2 := 4))
   \<and> ((const_heap 1)(1 := 2, 2 := 4)) (data (f32_array 1 2) + 1) = 4
   \<and> (const_heap 1) (data (f32_array 0 2) + 1) * 2 = 2
   \<and> bfScale (*) (const_heap 1) (Some (f32_array 1 2)) (Some (f32_array 0 2)) 2
     = Some (BF_STATUS_SUCCESS, (const_heap 1)(0 := 2, 1 := 2))
   \<and> ((const_heap 1)(0 := 2, 1 := 2)) (data (f32_array 0 2) + 0) = 2
   \<and> ((const_heap 1)(0 := 2, 1 := 2)) (data (f32_array 1 2) + 0) * 2 = 4"
proof -
  have c: "const_heap 1 0 = 1" "const_heap 1 (Suc 0) = 1" "const_heap 1 2 = 1"
    "const_heap 1 (Suc (Suc 0)) = 1"
    by (simp_all add: const_heap_def)
  have fwd: "scale_loop 2 0 (*) 2 0 1 (const_heap 1) = (const_heap 1)(1 := 2, 2 := 4)"
    by (simp add: numeral_2_eq_2 c)
  have bwd: "scale_loop 2 0 (*) 2 1 0 (const_heap 1) = (const_heap 1)(0 := 2, 1 := 2)"
    by (simp add: numeral_2_eq_2 c)
  have a1: "bfScale (*) (const_heap 1) (Some (f32_array 0 2)) (Some (f32_array 1 2)) 2
     = Some (BF_STATUS_SUCCESS, (const_heap 1)(1 := 2, 2 := 4))"
    unfolding bfScale_f32_run fwd ..
  have a2: "((const_heap 1)(1 := 2, 2 := 4)) (data (f32_array 1 2) + 1) = 4"
    unfolding data_f32_array by simp
  have a3: "(const_heap 1) (data (f32_array 0 2) + 1) * 2 = 2"
    unfolding data_f32_array by (simp add: c)
  have b1: "bfScale (*) (const_heap 1) (Some (f32_array 1 2)) (Some (f32_array 0 2)) 2
     = Some (BF_STATUS_SUCCESS, (const_heap 1)(0 := 2, 1 := 2))"
    unfolding bfScale_f32_run bwd ..
  have b2: "((const_heap 1)(0 := 2, 1 := 2)) (data (f32_array 0 2) + 0) = 2"
    unfolding data_f32_array by simp
  have b3: "((const_heap 1)(0 := 2, 1 := 2)) (data (f32_array 1 2) + 0) * 2 = 4"
    unfolding data_f32_array by simp
  from a1 a2 a3 b1 b2 b3 show ?thesis by (intro conjI)
qed

text \<open>
  Two disjoint buffers of two elements: both outputs are the input 3 times 2, and the
  input is untouched.
\<close>

theorem bfScale_spec_witness:
  "array_ok (f32_array 0 2) \<and> array_ok (f32_array 5 2)
   \<and> no_clobber (f32_array 0 2) (f32_array 5 2)
   \<and> (\<exists>h'. bfScale (*) (const_heap 3) (Some (f32_array 0 2)) (Some (f32_array 5 2)) 2
              = Some (BF_STATUS_SUCCESS, h')
          \<and> h' 5 = 6 \<and> h' 6 = 6 \<and> h' 0 = 3)"
proof -
  let ?a = "f32_array 0 2" and ?b = "f32_array 5 2"
  have nc: "no_clobber ?a ?b"
    by (simp add: no_clobber_def nelements_f32_array_2 data_f32_array)
  have c: "\<And>p. const_heap 3 p = 3" by (simp add: const_heap_def)
  have "\<exists>h'. bfScale (*) (const_heap 3) (Some ?a) (Some ?b) 2 = Some (BF_STATUS_SUCCESS, h')
      \<and> (no_clobber ?a ?b \<longrightarrow>
            (\<forall>i. i < nelements ?a \<longrightarrow> h' (data ?b + i) = (const_heap 3) (data ?a + i) * 2))
      \<and> (\<forall>p. (\<forall>j. j < nelements ?a \<longrightarrow> p \<noteq> data ?b + j) \<longrightarrow> h' p = const_heap 3 p)"
    using bfScale_spec [OF f32_array_ok f32_array_ok, of 0 2 5 2 "(*)" "const_heap 3" 2,
        THEN conjunct2, THEN conjunct2, THEN conjunct2] f32_array_same_shape [of 0 2 5]
    by (rule mp)
  then obtain h' where
        r: "bfScale (*) (const_heap 3) (Some ?a) (Some ?b) 2 = Some (BF_STATUS_SUCCESS, h')"
    and w: "no_clobber ?a ?b \<longrightarrow>
            (\<forall>i. i < nelements ?a \<longrightarrow> h' (data ?b + i) = (const_heap 3) (data ?a + i) * 2)"
    and f: "\<forall>p. (\<forall>j. j < nelements ?a \<longrightarrow> p \<noteq> data ?b + j) \<longrightarrow> h' p = const_heap 3 p"
    by (elim exE conjE)
  from w nc have w': "\<And>i. i < 2 \<Longrightarrow> h' (5 + i) = 6"
    unfolding nelements_f32_array_2 data_f32_array c by simp
  from f have f': "\<And>p. (\<forall>j. j < 2 \<longrightarrow> p \<noteq> 5 + j) \<Longrightarrow> h' p = 3"
    unfolding nelements_f32_array_2 data_f32_array c by simp
  have "h' 5 = 6" using w' [of 0] by simp
  moreover have "h' 6 = 6" using w' [of 1] by simp
  moreover have "h' 0 = 3" using f' [of 0] by simp
  ultimately have "\<exists>h'. bfScale (*) (const_heap 3) (Some ?a) (Some ?b) 2 = Some (BF_STATUS_SUCCESS, h')
          \<and> h' 5 = 6 \<and> h' 6 = 6 \<and> h' 0 = 3"
    using r by (intro exI [of _ h'] conjI)
  with nc f32_array_ok [of 0 2] f32_array_ok [of 5 2] show ?thesis by (intro conjI)
qed

subsection \<open>The invariant under the writer's calls\<close>



lemma close_current_fields [simp]:
  "capacity (close_current r) = capacity r"
  "contiguous_span (close_current r) = contiguous_span r"
  "storage (close_current r) = storage r"
  "writing (close_current r) = writing r"
  "reserve_cursor (close_current r) = reserve_cursor r"
  "commit_cursor (close_current r) = commit_cursor r"
  "open_spans (close_current r) = open_spans r"
  "readers (close_current r) = readers r"
  "written (close_current r) = written r"
  "valid_from (close_current r) = valid_from r"
  "length (sequences (close_current r)) = length (sequences r)"
  by (simp_all add: close_current_def)

lemma close_current_begin [simp]:
  "seq_begin (sequences (close_current r) ! i) = seq_begin (sequences r ! i)"
proof (cases "seq_open r")
  case True
  then have ne: "sequences r \<noteq> []" by (simp add: seq_open_def)
  show ?thesis
  proof (cases "i = length (sequences r) - 1")
    case True
    with ne \<open>seq_open r\<close> show ?thesis by (simp add: close_current_def last_conv_nth)
  next
    case False
    with \<open>seq_open r\<close> show ?thesis by (simp add: close_current_def)
  qed
next
  case False
  then show ?thesis by (simp add: close_current_def)
qed


lemma close_current_closed: "\<not> seq_open (close_current r)"
  by (auto simp add: close_current_def seq_open_def last_conv_nth)













lemma span_bytes_length [simp]: "length (span_bytes r off n) = n"
  by (simp add: span_bytes_def)




lemma relocate_length [simp]: "length (relocate r c) = c"
  by (simp add: relocate_def)





subsection \<open>The readers' calls leave the writer's side alone\<close>

lemma same_ring_refl [simp]: "same_ring r r"
  by (simp add: same_ring_def)

lemma same_ring_update [simp]: "same_ring r (r\<lparr>readers := rs\<rparr>)"
  by (simp add: same_ring_def)








lemma writer_op_readers:
  assumes "actor x = None" "\<And>g oldest. x \<noteq> Open_reading g oldest"
  shows "readers (snd (apply_op r x)) = readers r"
  using assms
  by (cases x)
     (auto simp add: resize_def open_writing_def close_writing_def begin_sequence_def
        end_sequence_def reserve_def span_write_def commit_def interrupt_ring_def
        split: list.split)





lemma open_sequence_length:
  "length (readers (snd (open_sequence r k m f))) = length (readers r)"
  by (simp add: open_sequence_def enter_def split: option.split)

lemma acquire_length: "length (readers (snd (acquire r k n))) = length (readers r)"
  by (simp add: acquire_def hold_def split: option.split)

lemma release_length: "length (readers (snd (release r k))) = length (readers r)"
  by (simp add: release_def split: option.split prod.split)

lemma apply_op_length: "length (readers r) \<le> length (readers (snd (apply_op r x)))"
proof (cases "actor x = None")
  case True
  show ?thesis
  proof (cases "\<exists>g oldest. x = Open_reading g oldest")
    case True
    then show ?thesis by (auto simp add: open_reading_def)
  next
    case False
    with \<open>actor x = None\<close> show ?thesis by (simp add: writer_op_readers)
  qed
next
  case False
  then show ?thesis
    by (cases x)
       (auto simp add: close_reading_def set_guarantee_def next_sequence_def
          sequence_open_latest_def sequence_open_by_name_def sequence_open_by_time_tag_def
          sequence_open_at_offset_def enter_def open_sequence_length acquire_length
          release_length split: option.split)
qed





lemma run_length: "length (readers r) \<le> length (readers (run r xs))"
proof (induction xs arbitrary: r)
  case Nil
  show ?case by simp
next
  case (Cons x xs)
  from apply_op_length [of r x] Cons [of "snd (apply_op r x)"] show ?case by simp
qed

subsection \<open>A guaranteed reader stays within one capacity of the writer\<close>

















subsection \<open>Backpressure\<close>









subsection \<open>What a guaranteed reader acquires\<close>

lemma extends_refl [simp]: "extends r r"
  by (simp add: extends_def)
















lemma leaves_actor: "leaves k x \<Longrightarrow> actor x = Some k"
  by (cases x) simp_all












subsection \<open>Writing bytes and reading them back\<close>











end
